theory Spec2Isabelle
  imports Complex_Main
begin

section \<open>The WSOLA converter of audiotsm (src/audiotsm/wsola.py)\<close>

text \<open>
  Samples are modelled as exact reals: rounding, NaN and infinities of float64 are
  outside the model.  A one-dimensional numpy array is a list, a two-dimensional one a
  list of rows.  Python integers are \<open>int\<close>.  Every exception the interpreter or numpy
  can raise on the modelled paths is a value of \<open>error\<close>.
\<close>

datatype error = ValueError | IndexError

subsection \<open>Python and numpy primitives used by the module\<close>

text \<open>Sequencing of fallible computations: the first exception wins.\<close>

definition bind_err :: "error + 'a \<Rightarrow> ('a \<Rightarrow> error + 'b) \<Rightarrow> error + 'b" where
  "bind_err m f = (case m of Inl e \<Rightarrow> Inl e | Inr x \<Rightarrow> f x)"

text \<open>
  A slice bound of Python, adjusted to a sequence of length \<open>n\<close>: a negative bound
  counts from the end, and every bound is clipped to \<open>0..n\<close>.
\<close>

definition adjust_index :: "int \<Rightarrow> int \<Rightarrow> nat" where
  "adjust_index n i =
     (if i < 0 then (if i + n < 0 then 0 else nat (i + n))
      else (if n < i then nat n else nat i))"

text \<open>\<open>xs[start:stop]\<close> with step 1; \<open>None\<close> is an omitted bound.\<close>

definition slice :: "'a list \<Rightarrow> int option \<Rightarrow> int option \<Rightarrow> 'a list" where
  "slice xs start stop =
     (let n = int (length xs);
          lo = (case start of None \<Rightarrow> 0 | Some i \<Rightarrow> adjust_index n i);
          hi = (case stop of None \<Rightarrow> length xs | Some j \<Rightarrow> adjust_index n j)
      in take (hi - lo) (drop lo xs))"

text \<open>\<open>a[k]\<close> on the first axis, for \<open>k \<ge> 0\<close>: IndexError out of range.\<close>

definition row :: "'a list \<Rightarrow> nat \<Rightarrow> error + 'a" where
  "row xs k = (if k < length xs then Inr (xs ! k) else Inl IndexError)"

text \<open>
  The dot product behind a score.  numpy computes it in float64; here it is the exact
  sum of the products, which float64 also yields on the small integers of the examples.
  No theorem stated for all frames depends on the value of a score.
\<close>

definition dot :: "real list \<Rightarrow> real list \<Rightarrow> real" where
  "dot xs ys = sum_list (map2 (*) xs ys)"

text \<open>
  \<open>np.correlate(a, v)\<close> in its default mode \<open>'valid'\<close>.  numpy rejects an empty
  operand; when \<open>a\<close> is the shorter operand it exchanges the two and reverses the
  result.  There are \<open>max - min + 1\<close> scores.
\<close>

definition correlate :: "real list \<Rightarrow> real list \<Rightarrow> error + real list" where
  "correlate a v =
     (if a = [] \<or> v = [] then Inl ValueError
      else if length a < length v
        then Inr (rev (map (\<lambda>i. dot (take (length a) (drop i v)) a)
                        [0 ..< length v - length a + 1]))
        else Inr (map (\<lambda>i. dot (take (length v) (drop i a)) v)
                   [0 ..< length a - length v + 1]))"

text \<open>
  \<open>np.argmax\<close>: a scan that replaces the running maximum only by a strictly greater
  element; an empty array is rejected.
\<close>

fun argmax_loop :: "real list \<Rightarrow> nat \<Rightarrow> real \<Rightarrow> nat \<Rightarrow> nat" where
  "argmax_loop [] i mp mi = mi"
| "argmax_loop (x # xs) i mp mi =
     (if mp < x then argmax_loop xs (Suc i) x i else argmax_loop xs (Suc i) mp mi)"

definition argmax :: "real list \<Rightarrow> error + nat" where
  "argmax xs = (case xs of [] \<Rightarrow> Inl ValueError | x # ys \<Rightarrow> Inr (argmax_loop ys 1 x 0))"

text \<open>
  \<open>np.copyto(dst, src)\<close> for one-dimensional arrays, as the new contents of \<open>dst\<close>:
  \<open>src\<close> must have the shape of \<open>dst\<close> or be broadcast from a single element.
\<close>

definition copyto :: "real list \<Rightarrow> real list \<Rightarrow> error + real list" where
  "copyto dst src =
     (if length src = length dst then Inr src
      else if length src = 1 then Inr (replicate (length dst) (hd src))
      else Inl ValueError)"

text \<open>
  \<open>np.empty((rows, cols))\<close>: negative dimensions are rejected; the cells hold whatever
  the allocator returns, given here by \<open>mem\<close>.
\<close>

definition np_empty :: "(nat \<Rightarrow> nat \<Rightarrow> real) \<Rightarrow> int \<Rightarrow> int \<Rightarrow> error + real list list" where
  "np_empty mem rows cols =
     (if rows < 0 \<or> cols < 0 then Inl ValueError
      else Inr (map (\<lambda>i. map (mem i) [0 ..< nat cols]) [0 ..< nat rows]))"

text \<open>\<open>int(x)\<close> of a float: truncation toward zero.\<close>

definition py_int :: "real \<Rightarrow> int" where
  "py_int x = (if 0 \<le> x then \<lfloor>x\<rfloor> else \<lceil>x\<rceil>)"

subsection \<open>WSOLAConverter\<close>

record converter =
  channels :: int
  frame_length :: int
  synthesis_hop :: int
  tolerance :: int
  synthesis_frame :: "real list list"
  natural_progression :: "real list list"
  first :: bool

text \<open>\<open>__init__\<close>; \<open>m1\<close> and \<open>m2\<close> are the uninitialised contents of the two buffers.\<close>

definition init ::
  "(nat \<Rightarrow> nat \<Rightarrow> real) \<Rightarrow> (nat \<Rightarrow> nat \<Rightarrow> real) \<Rightarrow> int \<Rightarrow> int \<Rightarrow> int \<Rightarrow> int \<Rightarrow> error + converter" where
  "init m1 m2 chans flen shop tol =
     bind_err (np_empty m1 chans flen) (\<lambda>sf.
     bind_err (np_empty m2 chans flen) (\<lambda>np.
       Inr \<lparr>channels = chans, frame_length = flen, synthesis_hop = shop, tolerance = tol,
            synthesis_frame = sf, natural_progression = np, first = True\<rparr>))"

definition clear :: "converter \<Rightarrow> converter" where
  "clear c = c\<lparr>first := True\<rparr>"

text \<open>
  Lines 41-43 of \<open>convert_frame\<close>: the scores of the shift search of channel \<open>k\<close>,
  \<open>np.correlate(analysis_frame[k, :-synthesis_hop], natural_progression[k])\<close>.
\<close>

definition cross_correlation :: "converter \<Rightarrow> real list list \<Rightarrow> nat \<Rightarrow> error + real list" where
  "cross_correlation c af k =
     bind_err (row af k) (\<lambda>a.
     bind_err (row (natural_progression c) k) (\<lambda>v.
       correlate (slice a None (Some (- synthesis_hop c))) v))"

text \<open>Lines 38-45: the shift \<open>delta\<close> chosen for channel \<open>k\<close>.\<close>

definition shift_search :: "converter \<Rightarrow> real list list \<Rightarrow> nat \<Rightarrow> error + int" where
  "shift_search c af k =
     (if first c then Inr 0
      else bind_err (cross_correlation c af k) (\<lambda>cc.
           bind_err (argmax cc) (\<lambda>i. Inr (int i))))"

text \<open>
  The body of the loop over the channels (lines 38-55), on the state.  An exception
  leaves the buffers as the statements before it have written them.
\<close>

definition convert_channel :: "converter \<Rightarrow> real list list \<Rightarrow> nat \<Rightarrow> converter \<times> error option" where
  "convert_channel c af k =
     (case shift_search c af k of
        Inl e \<Rightarrow> (c, Some e)
      | Inr delta \<Rightarrow>
          (case bind_err (row (synthesis_frame c) k) (\<lambda>dst.
                bind_err (row af k) (\<lambda>a.
                  copyto dst (slice a (Some delta) (Some (delta + frame_length c))))) of
             Inl e \<Rightarrow> (c, Some e)
           | Inr s \<Rightarrow>
               (let c1 = c\<lparr>synthesis_frame := (synthesis_frame c)[k := s]\<rparr>;
                    delta' = delta + synthesis_hop c
                in case bind_err (row (natural_progression c1) k) (\<lambda>dst.
                        bind_err (row af k) (\<lambda>a.
                          copyto dst (slice a (Some delta') (Some (delta' + frame_length c1))))) of
                     Inl e \<Rightarrow> (c1, Some e)
                   | Inr p \<Rightarrow>
                       (c1\<lparr>natural_progression := (natural_progression c1)[k := p]\<rparr>, None))))"

fun convert_loop :: "converter \<Rightarrow> real list list \<Rightarrow> nat list \<Rightarrow> converter \<times> error option" where
  "convert_loop c af [] = (c, None)"
| "convert_loop c af (k # ks) =
     (case convert_channel c af k of
        (c', Some e) \<Rightarrow> (c', Some e)
      | (c', None) \<Rightarrow> convert_loop c' af ks)"

text \<open>
  \<open>convert_frame\<close>: the state after the call, and the exception raised or the contents
  of the returned buffer \<open>_synthesis_frame\<close> at the return.
\<close>

definition convert_frame :: "converter \<Rightarrow> real list list \<Rightarrow> converter \<times> (error + real list list)" where
  "convert_frame c af =
     (case convert_loop c af [0 ..< nat (channels c)] of
        (c', Some e) \<Rightarrow> (c', Inl e)
      | (c', None) \<Rightarrow> (c'\<lparr>first := False\<rparr>, Inr (synthesis_frame c')))"

subsection \<open>The parameter deriver \<open>wsola\<close>\<close>

text \<open>
  \<open>AnalysisSynthesisTSM\<close> (audiotsm.base) is not part of the sources at hand: the
  object \<open>wsola\<close> returns is the record of the nine arguments of its constructor call, in
  their order.  \<open>hanning\<close> (audiotsm.utils.windows) is a parameter.  So is
  \<open>product\<close>, the float64 value of the expression \<open>synthesis_hop * speed\<close>: the
  rounding of the multiplication is not modelled.  \<open>int\<close> of that float is exact.
\<close>

record tsm =
  tsm_converter :: converter
  tsm_channels :: int
  tsm_frame_length :: int
  tsm_analysis_hop :: int
  tsm_synthesis_hop :: int
  tsm_analysis_window :: "real list option"
  tsm_synthesis_window :: "real list option"
  tsm_arg8 :: int
  tsm_arg9 :: int

definition wsola ::
  "(int \<Rightarrow> real \<Rightarrow> real) \<Rightarrow> (int \<Rightarrow> real list) \<Rightarrow>
   (nat \<Rightarrow> nat \<Rightarrow> real) \<Rightarrow> (nat \<Rightarrow> nat \<Rightarrow> real) \<Rightarrow>
   int \<Rightarrow> real \<Rightarrow> int \<Rightarrow> int option \<Rightarrow> int option \<Rightarrow> int option \<Rightarrow> error + tsm" where
  "wsola product hanning m1 m2 chans speed flen analysis_hop_opt synthesis_hop_opt tolerance_opt =
     (let shop = (case synthesis_hop_opt of None \<Rightarrow> flen div 2 | Some h \<Rightarrow> h);
          ahop = (case analysis_hop_opt of None \<Rightarrow> py_int (product shop speed) | Some a \<Rightarrow> a);
          tol = (case tolerance_opt of None \<Rightarrow> flen div 2 | Some t \<Rightarrow> t);
          analysis_window = None;
          synthesis_window = Some (hanning flen)
      in bind_err (init m1 m2 chans flen shop tol) (\<lambda>conv.
           Inr \<lparr>tsm_converter = conv, tsm_channels = chans, tsm_frame_length = flen,
                tsm_analysis_hop = ahop, tsm_synthesis_hop = shop,
                tsm_analysis_window = analysis_window,
                tsm_synthesis_window = synthesis_window,
                tsm_arg8 = tol, tsm_arg9 = tol + shop\<rparr>))"

subsection \<open>Well-formed states\<close>

text \<open>
  The shape of the two buffers that \<open>__init__\<close> allocates and every later call keeps:
  \<open>channels\<close> rows of \<open>frame_length\<close> samples.
\<close>

definition rows_of :: "nat \<Rightarrow> nat \<Rightarrow> real list list \<Rightarrow> bool" where
  "rows_of r n xss = (length xss = r \<and> list_all (\<lambda>xs. length xs = n) xss)"

definition well_formed :: "converter \<Rightarrow> bool" where
  "well_formed c = (0 \<le> channels c \<and> 0 \<le> frame_length c \<and>
           rows_of (nat (channels c)) (nat (frame_length c)) (synthesis_frame c) \<and>
           rows_of (nat (channels c)) (nat (frame_length c)) (natural_progression c))"

text \<open>
  The outcome of one iteration of the loop that completes: the shift, and the new
  contents of the two buffer rows of the channel.
\<close>

definition channel_result ::
  "converter \<Rightarrow> real list list \<Rightarrow> nat \<Rightarrow> int \<Rightarrow> real list \<Rightarrow> real list \<Rightarrow> bool" where
  "channel_result c af k delta s p =
     (k < length (synthesis_frame c) \<and> k < length (natural_progression c) \<and> k < length af \<and>
      shift_search c af k = Inr delta \<and>
      copyto (synthesis_frame c ! k)
        (slice (af ! k) (Some delta) (Some (delta + frame_length c))) = Inr s \<and>
      copyto (natural_progression c ! k)
        (slice (af ! k) (Some (delta + synthesis_hop c))
           (Some (delta + synthesis_hop c + frame_length c))) = Inr p)"

subsection \<open>States and inputs of the examples\<close>

definition zero_mem :: "nat \<Rightarrow> nat \<Rightarrow> real" where
  "zero_mem i j = 0"

text \<open>
  The product of an integer and a float where float64 commits no rounding, as for
  \<open>3 * -0.5\<close> and \<open>4 * 1.5\<close>.
\<close>

definition exact_product :: "int \<Rightarrow> real \<Rightarrow> real" where
  "exact_product h s = of_int h * s"

definition flat_window :: "int \<Rightarrow> real list" where
  "flat_window n = replicate (nat n) 1"

text \<open>One channel, frame length 1, synthesis hop 0, tolerance 0, after a first call.\<close>

definition hop0_state :: converter where
  "hop0_state = \<lparr>channels = 1, frame_length = 1, synthesis_hop = 0, tolerance = 0,
                  synthesis_frame = [[1]], natural_progression = [[1]], first = False\<rparr>"

text \<open>One channel, frame length 2, synthesis hop 1, tolerance 1, after a first call.\<close>

definition later_state :: converter where
  "later_state = \<lparr>channels = 1, frame_length = 2, synthesis_hop = 1, tolerance = 1,
                   synthesis_frame = [[0, 0]], natural_progression = [[3, 4]], first = False\<rparr>"

text \<open>Two channels, frame length 2, synthesis hop 1, tolerance 1, after a first call.\<close>

definition stereo_state :: converter where
  "stereo_state = \<lparr>channels = 2, frame_length = 2, synthesis_hop = 1, tolerance = 1,
                    synthesis_frame = [[0, 0], [0, 0]],
                    natural_progression = [[3, 4], [1, 1]], first = False\<rparr>"

text \<open>One channel, frame length 1, synthesis hop 1, tolerance 5, after a first call.\<close>

definition tie_state :: converter where
  "tie_state = \<lparr>channels = 1, frame_length = 1, synthesis_hop = 1, tolerance = 5,
                 synthesis_frame = [[0]], natural_progression = [[1]], first = False\<rparr>"

section \<open>Properties of the primitives\<close>

lemma bind_err_Inr_iff:
  "bind_err m f = Inr y \<longleftrightarrow> (\<exists>x. m = Inr x \<and> f x = Inr y)"
  by (cases m) (simp_all add: bind_err_def)

lemma bind_err_simps:
  "bind_err (Inl e) f = Inl e" "bind_err (Inr x) f = f x"
  by (simp_all add: bind_err_def)

lemma row_Inr_iff: "row xs k = Inr x \<longleftrightarrow> k < length xs \<and> x = xs ! k"
  by (auto simp: row_def)

lemma slice_nonneg:
  "0 \<le> i \<Longrightarrow> 0 \<le> l \<Longrightarrow> slice xs (Some i) (Some (i + l)) = take (nat l) (drop (nat i) xs)"
  by (auto simp: slice_def adjust_index_def Let_def nat_add_distrib take_all_iff min_def)

lemma slice_drop_last:
  "1 \<le> h \<Longrightarrow> slice xs None (Some (- h)) = take (length xs - nat h) xs"
  by (auto simp: slice_def adjust_index_def Let_def nat_diff_distrib')

lemma slice_minus_zero: "slice xs None (Some (- 0)) = []"
  by (simp add: slice_def adjust_index_def)

lemma argmax_loop_spec:
  "length pre = i \<Longrightarrow> mi < i \<Longrightarrow> pre ! mi = mp \<Longrightarrow> \<forall>j<i. pre ! j \<le> mp \<Longrightarrow>
   \<forall>j<mi. pre ! j < mp \<Longrightarrow>
   argmax_loop xs i mp mi < length (pre @ xs) \<and>
   (\<forall>j<length (pre @ xs). (pre @ xs) ! j \<le> (pre @ xs) ! argmax_loop xs i mp mi) \<and>
   (\<forall>j<argmax_loop xs i mp mi. (pre @ xs) ! j < (pre @ xs) ! argmax_loop xs i mp mi)"
proof (induction xs arbitrary: pre i mp mi)
  case Nil
  then show ?case by auto
next
  case (Cons x xs)
  show ?case
  proof (cases "mp < x")
    case True
    have a: "length (pre @ [x]) = Suc i" using Cons.prems by simp
    have b: "(pre @ [x]) ! i = x" using Cons.prems by (simp add: nth_append)
    have c: "\<forall>j<Suc i. (pre @ [x]) ! j \<le> x"
      using Cons.prems True by (auto simp: nth_append less_Suc_eq)
    have d: "\<forall>j<i. (pre @ [x]) ! j < x"
      using Cons.prems True by (auto simp: nth_append)
    from Cons.IH[OF a _ b c d] True show ?thesis by simp
  next
    case False
    have a: "length (pre @ [x]) = Suc i" using Cons.prems by simp
    have m: "mi < Suc i" using Cons.prems by simp
    have b: "(pre @ [x]) ! mi = mp" using Cons.prems by (simp add: nth_append)
    have c: "\<forall>j<Suc i. (pre @ [x]) ! j \<le> mp"
      using Cons.prems False by (auto simp: nth_append less_Suc_eq)
    have d: "\<forall>j<mi. (pre @ [x]) ! j < mp"
      using Cons.prems by (auto simp: nth_append)
    from Cons.IH[OF a m b c d] False show ?thesis by simp
  qed
qed

lemma argmax_Inr:
  assumes "argmax xs = Inr r"
  shows "r < length xs" "\<forall>j<length xs. xs ! j \<le> xs ! r" "\<forall>j<r. xs ! j < xs ! r"
proof -
  from assms obtain x ys where xs: "xs = x # ys" and r: "r = argmax_loop ys 1 x 0"
    by (auto simp: argmax_def split: list.splits)
  have "argmax_loop ys 1 x 0 < length ([x] @ ys) \<and>
   (\<forall>j<length ([x] @ ys). ([x] @ ys) ! j \<le> ([x] @ ys) ! argmax_loop ys 1 x 0) \<and>
   (\<forall>j<argmax_loop ys 1 x 0. ([x] @ ys) ! j < ([x] @ ys) ! argmax_loop ys 1 x 0)"
    by (rule argmax_loop_spec) auto
  then show "r < length xs" "\<forall>j<length xs. xs ! j \<le> xs ! r" "\<forall>j<r. xs ! j < xs ! r"
    using xs r by simp_all
qed

lemma argmax_total: "xs \<noteq> [] \<Longrightarrow> \<exists>r. argmax xs = Inr r"
  by (cases xs) (simp_all add: argmax_def)

lemma argmax_Max:
  assumes "argmax xs = Inr r"
  shows "xs ! r = Max (set xs)"
proof -
  note a = argmax_Inr[OF assms]
  have "xs ! r \<in> set xs" using a(1) by simp
  moreover have "\<forall>y\<in>set xs. y \<le> xs ! r" using a(2) by (auto simp: in_set_conv_nth)
  ultimately show ?thesis by (intro Max_eqI[symmetric]) auto
qed

lemma argmax_least:
  assumes "argmax xs = Inr r" "j < length xs" "xs ! j = Max (set xs)"
  shows "r \<le> j"
proof (rule ccontr)
  assume "\<not> r \<le> j"
  then have "xs ! j < xs ! r" using argmax_Inr(3)[OF assms(1)] by simp
  then show False using assms(3) argmax_Max[OF assms(1)] by simp
qed

lemma correlate_long:
  assumes "v \<noteq> []" "length v \<le> length a"
  shows "correlate a v =
           Inr (map (\<lambda>i. dot (take (length v) (drop i a)) v) [0 ..< length a - length v + 1])"
proof -
  have "\<not> (a = [] \<or> v = [])" "\<not> length a < length v"
    using assms by auto
  then show ?thesis unfolding correlate_def by (simp only: if_False)
qed

lemma correlate_length:
  "correlate a v = Inr cc \<Longrightarrow>
     length cc = (if length a < length v then length v - length a else length a - length v) + 1"
  by (auto simp: correlate_def split: if_splits)

lemma copyto_length: "copyto dst src = Inr r \<Longrightarrow> length r = length dst"
  by (auto simp: copyto_def split: if_splits)

lemma copyto_same: "length src = length dst \<Longrightarrow> copyto dst src = Inr src"
  by (simp add: copyto_def)

section \<open>The loop over the channels\<close>

lemma convert_channel_None_iff:
  "convert_channel c af k = (c', None) \<longleftrightarrow>
     (\<exists>delta s p. channel_result c af k delta s p \<and>
        c' = c\<lparr>synthesis_frame := (synthesis_frame c)[k := s],
                natural_progression := (natural_progression c)[k := p]\<rparr>)"
  unfolding convert_channel_def channel_result_def
  by (auto simp: Let_def bind_err_def row_def split: sum.splits if_splits)

lemma convert_channel_cases:
  obtains (ok) c' where "convert_channel c af k = (c', None)"
        | (err) c' e where "convert_channel c af k = (c', Some e)"
proof (cases "convert_channel c af k")
  case (Pair c' r)
  then show ?thesis by (cases r) (auto intro: ok err)
qed

lemma shift_search_cong:
  assumes "first c = first d" "synthesis_hop c = synthesis_hop d"
    "row (natural_progression c) k = row (natural_progression d) k"
  shows "shift_search c af k = shift_search d af k"
  using assms by (simp add: shift_search_def cross_correlation_def)

lemma shift_search_nonneg: "shift_search c af k = Inr delta \<Longrightarrow> 0 \<le> delta"
  by (auto simp: shift_search_def bind_err_Inr_iff split: if_splits)


lemma channel_result_update:
  assumes "k' \<noteq> k"
  shows "channel_result (c\<lparr>synthesis_frame := (synthesis_frame c)[k := s],
                           natural_progression := (natural_progression c)[k := p]\<rparr>) af k' d s' p'
         = channel_result c af k' d s' p'"
proof -
  let ?c1 = "c\<lparr>synthesis_frame := (synthesis_frame c)[k := s],
                natural_progression := (natural_progression c)[k := p]\<rparr>"
  have "row (natural_progression ?c1) k' = row (natural_progression c) k'"
    using assms by (simp add: row_def)
  then have "shift_search ?c1 af k' = shift_search c af k'"
    by (intro shift_search_cong) simp_all
  then show ?thesis using assms by (simp add: channel_result_def)
qed

lemma convert_loop_None:
  "convert_loop c af ks = (c', None) \<Longrightarrow> distinct ks \<Longrightarrow>
     first c' = first c \<and> channels c' = channels c \<and> frame_length c' = frame_length c \<and>
     synthesis_hop c' = synthesis_hop c \<and> tolerance c' = tolerance c \<and>
     length (synthesis_frame c') = length (synthesis_frame c) \<and>
     length (natural_progression c') = length (natural_progression c) \<and>
     (\<forall>k. k \<notin> set ks \<longrightarrow> synthesis_frame c' ! k = synthesis_frame c ! k \<and>
                          natural_progression c' ! k = natural_progression c ! k) \<and>
     (\<forall>k\<in>set ks. \<exists>d. channel_result c af k d (synthesis_frame c' ! k)
                                             (natural_progression c' ! k))"
proof (induction ks arbitrary: c)
  case Nil
  then show ?case by simp
next
  case (Cons k ks)
  from Cons.prems(1) obtain c1 where c1: "convert_channel c af k = (c1, None)"
    and rest: "convert_loop c1 af ks = (c', None)"
    by (auto split: prod.splits option.splits)
  from c1 obtain d s p where r: "channel_result c af k d s p"
    and c1_eq: "c1 = c\<lparr>synthesis_frame := (synthesis_frame c)[k := s],
                        natural_progression := (natural_progression c)[k := p]\<rparr>"
    unfolding convert_channel_None_iff by blast
  from Cons.prems(2) have dist: "distinct ks" and notin: "k \<notin> set ks" by simp_all
  note ih = Cons.IH[OF rest dist]
  have kl: "k < length (synthesis_frame c)" "k < length (natural_progression c)"
    using r by (simp_all add: channel_result_def)
  have cfg: "first c' = first c" "channels c' = channels c" "frame_length c' = frame_length c"
    "synthesis_hop c' = synthesis_hop c" "tolerance c' = tolerance c"
    "length (synthesis_frame c') = length (synthesis_frame c)"
    "length (natural_progression c') = length (natural_progression c)"
    using ih by (simp_all add: c1_eq)
  have unch: "synthesis_frame c' ! j = synthesis_frame c ! j \<and>
              natural_progression c' ! j = natural_progression c ! j" if "j \<notin> set (k # ks)" for j
    using ih that by (simp add: c1_eq)
  have here: "channel_result c af k d (synthesis_frame c' ! k) (natural_progression c' ! k)"
    using ih notin r kl by (simp add: c1_eq)
  have there: "\<exists>d'. channel_result c af j d' (synthesis_frame c' ! j) (natural_progression c' ! j)"
    if "j \<in> set ks" for j
  proof -
    from that notin have "j \<noteq> k" by auto
    from ih that obtain d' where
      "channel_result c1 af j d' (synthesis_frame c' ! j) (natural_progression c' ! j)" by blast
    then show ?thesis unfolding c1_eq channel_result_update[OF \<open>j \<noteq> k\<close>] by blast
  qed
  show ?case using cfg unch here there by auto
qed

lemma convert_loop_total:
  "distinct ks \<Longrightarrow> \<forall>k\<in>set ks. \<exists>d s p. channel_result c af k d s p \<Longrightarrow>
     \<exists>c'. convert_loop c af ks = (c', None)"
proof (induction ks arbitrary: c)
  case Nil
  then show ?case by simp
next
  case (Cons k ks)
  from Cons.prems obtain d s p where r: "channel_result c af k d s p" by auto
  define c1 where "c1 = c\<lparr>synthesis_frame := (synthesis_frame c)[k := s],
                        natural_progression := (natural_progression c)[k := p]\<rparr>"
  have step: "convert_channel c af k = (c1, None)"
    unfolding convert_channel_None_iff c1_def using r by blast
  have "\<forall>j\<in>set ks. \<exists>d s p. channel_result c1 af j d s p"
  proof
    fix j assume j: "j \<in> set ks"
    with Cons.prems(1) have "j \<noteq> k" by auto
    from j Cons.prems(2) obtain d' s' p' where "channel_result c af j d' s' p'" by auto
    then have "channel_result c1 af j d' s' p'"
      unfolding c1_def channel_result_update[OF \<open>j \<noteq> k\<close>] .
    then show "\<exists>d s p. channel_result c1 af j d s p" by blast
  qed
  moreover have "distinct ks" using Cons.prems(1) by simp
  ultimately obtain c' where "convert_loop c1 af ks = (c', None)"
    using Cons.IH by blast
  then show ?case using step by simp
qed

lemma convert_loop_cases:
  obtains (ok) c' where "convert_loop c af ks = (c', None)"
        | (err) c' e where "convert_loop c af ks = (c', Some e)"
proof (cases "convert_loop c af ks")
  case (Pair c' r)
  then show ?thesis by (cases r) (auto intro: ok err)
qed

lemma convert_frame_Inr_iff:
  "convert_frame c af = (c', Inr out) \<longleftrightarrow>
     (\<exists>c1. convert_loop c af [0 ..< nat (channels c)] = (c1, None) \<and>
           c' = c1\<lparr>first := False\<rparr> \<and> out = synthesis_frame c1)"
  unfolding convert_frame_def by (auto split: prod.splits option.splits)

lemma convert_frame_Inl_iff:
  "convert_frame c af = (c', Inl e) \<longleftrightarrow>
     convert_loop c af [0 ..< nat (channels c)] = (c', Some e)"
  unfolding convert_frame_def by (auto split: prod.splits option.splits)

lemma convert_frame_Inr:
  assumes "convert_frame c af = (c', Inr out)"
  shows "\<not> first c'" "channels c' = channels c" "frame_length c' = frame_length c"
    "synthesis_hop c' = synthesis_hop c" "tolerance c' = tolerance c"
    "out = synthesis_frame c'"
    "length (synthesis_frame c') = length (synthesis_frame c)"
    "length (natural_progression c') = length (natural_progression c)"
    "\<And>k. k < nat (channels c) \<Longrightarrow>
       \<exists>d. channel_result c af k d (out ! k) (natural_progression c' ! k)"
proof -
  from assms obtain c1 where l: "convert_loop c af [0 ..< nat (channels c)] = (c1, None)"
    and c': "c' = c1\<lparr>first := False\<rparr>" and out: "out = synthesis_frame c1"
    unfolding convert_frame_Inr_iff by blast
  note n = convert_loop_None[OF l distinct_upt]
  show "\<not> first c'" "channels c' = channels c" "frame_length c' = frame_length c"
    "synthesis_hop c' = synthesis_hop c" "tolerance c' = tolerance c"
    "out = synthesis_frame c'"
    "length (synthesis_frame c') = length (synthesis_frame c)"
    "length (natural_progression c') = length (natural_progression c)"
    using n by (simp_all add: c' out)
  show "\<exists>d. channel_result c af k d (out ! k) (natural_progression c' ! k)"
    if "k < nat (channels c)" for k
    using n that by (simp add: c' out)
qed

lemma convert_frame_total:
  assumes "\<And>k. k < nat (channels c) \<Longrightarrow> \<exists>d s p. channel_result c af k d s p"
  shows "\<exists>c' out. convert_frame c af = (c', Inr out)"
proof -
  have "\<forall>k\<in>set [0 ..< nat (channels c)]. \<exists>d s p. channel_result c af k d s p"
    using assms by simp
  from convert_loop_total[OF distinct_upt this]
  obtain c1 where "convert_loop c af [0 ..< nat (channels c)] = (c1, None)" by blast
  then show ?thesis unfolding convert_frame_Inr_iff by blast
qed

lemma convert_frame_rejects:
  assumes "k < nat (channels c)" "\<And>d s p. \<not> channel_result c af k d s p"
  shows "\<exists>c' e. convert_frame c af = (c', Inl e)"
proof (cases c af "[0 ..< nat (channels c)]" rule: convert_loop_cases)
  case (ok c')
  from convert_loop_None[OF ok distinct_upt]
  have "\<forall>j\<in>set [0 ..< nat (channels c)].
          \<exists>d. channel_result c af j d (synthesis_frame c' ! j) (natural_progression c' ! j)"
    by blast
  with assms(1) have "\<exists>d. channel_result c af k d (synthesis_frame c' ! k)
                           (natural_progression c' ! k)" by simp
  with assms(2) show ?thesis by blast
next
  case (err c' e)
  then show ?thesis unfolding convert_frame_Inl_iff by blast
qed

section \<open>One channel under the contract of the caller\<close>

lemma well_formed_rows:
  assumes "well_formed c" "k < nat (channels c)"
  shows "k < length (synthesis_frame c)" "k < length (natural_progression c)"
    "length (synthesis_frame c ! k) = nat (frame_length c)"
    "length (natural_progression c ! k) = nat (frame_length c)"
    "0 \<le> frame_length c"
  using assms by (auto simp: well_formed_def rows_of_def list_all_length)

text \<open>A first call on a frame that is long enough: shift 0.\<close>

lemma channel_result_first:
  assumes wf: "well_formed c" and k: "k < nat (channels c)" "k < length af"
    and f: "first c" and hs: "0 \<le> synthesis_hop c"
    and len: "frame_length c + synthesis_hop c \<le> int (length (af ! k))"
  shows "channel_result c af k 0 (take (nat (frame_length c)) (af ! k))
           (take (nat (frame_length c)) (drop (nat (synthesis_hop c)) (af ! k)))"
proof -
  note r = well_formed_rows[OF wf k(1)]
  have s1: "slice (af ! k) (Some 0) (Some (0 + frame_length c)) = take (nat (frame_length c)) (af ! k)"
    using slice_nonneg[of 0 "frame_length c" "af ! k"] r(5) by simp
  have s2: "slice (af ! k) (Some (0 + synthesis_hop c)) (Some (0 + synthesis_hop c + frame_length c))
      = take (nat (frame_length c)) (drop (nat (synthesis_hop c)) (af ! k))"
    using slice_nonneg[of "synthesis_hop c" "frame_length c" "af ! k"] r(5) hs by simp
  have l1: "length (take (nat (frame_length c)) (af ! k)) = length (synthesis_frame c ! k)"
    using r len hs by simp
  have l2: "length (take (nat (frame_length c)) (drop (nat (synthesis_hop c)) (af ! k)))
      = length (natural_progression c ! k)"
    using r len hs by simp
  show ?thesis
    unfolding channel_result_def s1 s2 using r k f copyto_same[OF l1] copyto_same[OF l2]
    by (simp add: shift_search_def)
qed

text \<open>A later call on a frame that is long enough.\<close>

lemma cross_correlation_contract:
  assumes wf: "well_formed c" and k: "k < nat (channels c)" "k < length af"
    and hs: "1 \<le> synthesis_hop c" and fl: "1 \<le> frame_length c"
    and len: "frame_length c + synthesis_hop c \<le> int (length (af ! k))"
  shows "\<exists>cc. cross_correlation c af k = Inr cc \<and>
           length cc = length (af ! k) - nat (synthesis_hop c) - nat (frame_length c) + 1"
proof -
  note r = well_formed_rows[OF wf k(1)]
  let ?a = "take (length (af ! k) - nat (synthesis_hop c)) (af ! k)"
  have v: "natural_progression c ! k \<noteq> []" using r(4) fl by auto
  have "length (natural_progression c ! k) \<le> length ?a"
    using r(4) len hs fl by simp
  from correlate_long[OF v this]
  have "cross_correlation c af k =
      Inr (map (\<lambda>i. dot (take (length (natural_progression c ! k)) (drop i ?a))
                       (natural_progression c ! k))
             [0 ..< length ?a - length (natural_progression c ! k) + 1])"
    using k r(2) hs by (simp add: cross_correlation_def row_def bind_err_simps slice_drop_last)
  moreover have "length ?a - length (natural_progression c ! k) + 1
      = length (af ! k) - nat (synthesis_hop c) - nat (frame_length c) + 1"
    using r(4) by simp
  ultimately show ?thesis by (simp del: upt_Suc)
qed

lemma channel_result_later:
  assumes wf: "well_formed c" and k: "k < nat (channels c)" "k < length af"
    and nf: "\<not> first c"
    and hs: "1 \<le> synthesis_hop c" and fl: "1 \<le> frame_length c"
    and len: "frame_length c + synthesis_hop c \<le> int (length (af ! k))"
  shows "\<exists>i. i + nat (frame_length c) + nat (synthesis_hop c) \<le> length (af ! k) \<and>
             channel_result c af k (int i) (take (nat (frame_length c)) (drop i (af ! k)))
               (take (nat (frame_length c)) (drop (i + nat (synthesis_hop c)) (af ! k)))"
proof -
  note r = well_formed_rows[OF wf k(1)]
  let ?a = "af ! k" and ?L = "nat (frame_length c)" and ?H = "nat (synthesis_hop c)"
  from cross_correlation_contract[OF wf k hs fl len] obtain cc where
    cc: "cross_correlation c af k = Inr cc" and lcc: "length cc = length ?a - ?H - ?L + 1"
    by blast
  from lcc have "cc \<noteq> []" by auto
  then obtain i where i: "argmax cc = Inr i" using argmax_total by blast
  have lh: "?L + ?H \<le> length ?a" using len hs fl by arith
  from argmax_Inr(1)[OF i] lcc lh have ib: "i + ?L + ?H \<le> length ?a"
    by arith
  have ss: "shift_search c af k = Inr (int i)"
    using nf cc i by (simp add: shift_search_def bind_err_simps)
  have s1: "slice ?a (Some (int i)) (Some (int i + frame_length c)) = take ?L (drop i ?a)"
    using slice_nonneg[of "int i" "frame_length c" ?a] fl by simp
  have s2: "slice ?a (Some (int i + synthesis_hop c)) (Some (int i + synthesis_hop c + frame_length c))
      = take ?L (drop (i + ?H) ?a)"
    using slice_nonneg[of "int i + synthesis_hop c" "frame_length c" ?a] fl hs
    by (simp add: nat_add_distrib)
  have l1: "length (take ?L (drop i ?a)) = length (synthesis_frame c ! k)"
    using r ib by simp
  have l2: "length (take ?L (drop (i + ?H) ?a)) = length (natural_progression c ! k)"
    using r ib by simp
  have "channel_result c af k (int i) (take ?L (drop i ?a)) (take ?L (drop (i + ?H) ?a))"
    unfolding channel_result_def s1 s2 using r k ss copyto_same[OF l1] copyto_same[OF l2]
    by simp
  with ib show ?thesis by blast
qed

text \<open>A frame shorter than \<open>frame_length\<close> is never converted.\<close>

lemma channel_result_short:
  assumes wf: "well_formed c" and k: "k < nat (channels c)"
    and hs: "1 \<le> synthesis_hop c"
    and len: "int (length (af ! k)) < frame_length c"
  shows "\<not> channel_result c af k d s p"
proof
  assume cr: "channel_result c af k d s p"
  note r = well_formed_rows[OF wf k]
  let ?a = "af ! k" and ?L = "nat (frame_length c)" and ?H = "nat (synthesis_hop c)"
  from cr have d0: "0 \<le> d" by (auto simp: channel_result_def dest: shift_search_nonneg)
  have fl: "0 \<le> frame_length c" using r by simp
  have s1: "slice ?a (Some d) (Some (d + frame_length c)) = take ?L (drop (nat d) ?a)"
    using slice_nonneg[OF d0 fl] .
  have s2: "slice ?a (Some (d + synthesis_hop c)) (Some (d + synthesis_hop c + frame_length c))
      = take ?L (drop (nat d + ?H) ?a)"
    using slice_nonneg[of "d + synthesis_hop c" "frame_length c" ?a] fl hs d0
    by (simp add: nat_add_distrib)
  from cr have c1: "copyto (synthesis_frame c ! k) (take ?L (drop (nat d) ?a)) = Inr s"
    and c2: "copyto (natural_progression c ! k) (take ?L (drop (nat d + ?H) ?a)) = Inr p"
    unfolding channel_result_def s1 s2 by simp_all
  have ll: "length ?a < ?L" using len by simp
  from c1 ll r(3) have "length ?a - nat d = 1"
    by (auto simp: copyto_def split: if_splits)
  then have "length (take ?L (drop (nat d + ?H) ?a)) = 0" using hs by simp
  with c2 r(4) ll show False by (auto simp: copyto_def split: if_splits)
qed

lemma channel_result_unique:
  assumes "channel_result c af k d s p" "channel_result c af k d' s' p'"
  shows "d' = d" "s' = s" "p' = p"
  using assms by (auto simp: channel_result_def)

lemma correlate_empty: "correlate [] v = Inl ValueError" "correlate a [] = Inl ValueError"
  by (simp_all add: correlate_def)

text \<open>With a synthesis hop of 0 the slice \<open>[:-0]\<close> is empty, and the search raises.\<close>

lemma cross_correlation_hop_0:
  "synthesis_hop c = 0 \<Longrightarrow> \<exists>e. cross_correlation c af k = Inl e"
  by (simp add: cross_correlation_def bind_err_def row_def slice_def adjust_index_def
      correlate_empty)

lemma cross_correlation_length_0:
  assumes "well_formed c" "k < nat (channels c)" "frame_length c = 0"
  shows "\<exists>e. cross_correlation c af k = Inl e"
proof -
  have "natural_progression c ! k = []" using well_formed_rows(4)[OF assms(1,2)] assms(3) by simp
  then show ?thesis
    by (simp add: cross_correlation_def bind_err_def row_def correlate_empty)
qed

lemma shift_search_later:
  assumes "\<not> first c" "shift_search c af k = Inr d"
  shows "\<exists>cc i. cross_correlation c af k = Inr cc \<and> argmax cc = Inr i \<and> d = int i"
  using assms by (auto simp: shift_search_def bind_err_Inr_iff)

lemma shift_search_later_config:
  assumes wf: "well_formed c" and k: "k < nat (channels c)" and nf: "\<not> first c"
    and hs: "0 \<le> synthesis_hop c" and ss: "shift_search c af k = Inr d"
  shows "1 \<le> synthesis_hop c \<and> 1 \<le> frame_length c"
proof -
  from shift_search_later[OF nf ss] obtain cc where cc: "cross_correlation c af k = Inr cc"
    by blast
  have "synthesis_hop c \<noteq> 0" using cross_correlation_hop_0[of c af k] cc by auto
  moreover have "frame_length c \<noteq> 0" using cross_correlation_length_0[OF wf k, of af] cc by auto
  moreover have "0 \<le> frame_length c" using wf by (simp add: well_formed_def)
  ultimately show ?thesis using hs by simp
qed

text \<open>
  The result of a channel on a frame of exactly
  \<open>frame_length + tolerance + synthesis_hop\<close> samples.
\<close>

lemma channel_result_contract:
  assumes wf: "well_formed c" and k: "k < nat (channels c)"
    and hs: "0 \<le> synthesis_hop c" and tol: "0 \<le> tolerance c"
    and len: "int (length (af ! k)) = frame_length c + tolerance c + synthesis_hop c"
    and cr: "channel_result c af k d s p"
  shows "0 \<le> d" "d \<le> tolerance c"
    "s = slice (af ! k) (Some d) (Some (d + frame_length c))"
    "p = slice (af ! k) (Some (d + synthesis_hop c)) (Some (d + synthesis_hop c + frame_length c))"
    "s = take (nat (frame_length c)) (drop (nat d) (af ! k))"
    "nat d + nat (frame_length c) \<le> length (af ! k)"
    "length s = nat (frame_length c)"
proof -
  note r = well_formed_rows[OF wf k]
  have kaf: "k < length af" using cr by (simp add: channel_result_def)
  have len': "frame_length c + synthesis_hop c \<le> int (length (af ! k))" using len tol by simp
  let ?L = "nat (frame_length c)" and ?H = "nat (synthesis_hop c)"
  have main: "0 \<le> d \<and> d \<le> tolerance c \<and> s = take ?L (drop (nat d) (af ! k)) \<and>
      p = take ?L (drop (nat d + ?H) (af ! k))"
  proof (cases "first c")
    case True
    from channel_result_unique[OF channel_result_first[OF wf k kaf True hs len'] cr]
    show ?thesis using tol by simp
  next
    case False
    have ss: "shift_search c af k = Inr d" using cr by (simp add: channel_result_def)
    from shift_search_later_config[OF wf k False hs ss]
    have hs1: "1 \<le> synthesis_hop c" and fl1: "1 \<le> frame_length c" by simp_all
    from channel_result_later[OF wf k kaf False hs1 fl1 len'] obtain i where
      ib: "i + ?L + ?H \<le> length (af ! k)" and
      cri: "channel_result c af k (int i) (take ?L (drop i (af ! k)))
              (take ?L (drop (i + ?H) (af ! k)))" by blast
    from channel_result_unique[OF cri cr] have "d = int i"
      "s = take ?L (drop i (af ! k))" "p = take ?L (drop (i + ?H) (af ! k))" by simp_all
    moreover have "int i \<le> tolerance c" using ib len hs1 fl1 by arith
    ultimately show ?thesis by simp
  qed
  then show "0 \<le> d" "d \<le> tolerance c" "s = take ?L (drop (nat d) (af ! k))" by simp_all
  show "s = slice (af ! k) (Some d) (Some (d + frame_length c))"
    using main slice_nonneg[of d "frame_length c" "af ! k"] r(5) by simp
  show "p = slice (af ! k) (Some (d + synthesis_hop c)) (Some (d + synthesis_hop c + frame_length c))"
    using main slice_nonneg[of "d + synthesis_hop c" "frame_length c" "af ! k"] r(5) hs
    by (simp add: nat_add_distrib)
  show "nat d + ?L \<le> length (af ! k)" using main len hs r(5) by arith
  then show "length s = ?L" using main by simp
qed

lemma channel_result_exists:
  assumes wf: "well_formed c" and k: "k < nat (channels c)" "k < length af"
    and ok: "first c \<and> 0 \<le> synthesis_hop c \<or> 1 \<le> synthesis_hop c \<and> 1 \<le> frame_length c"
    and len: "frame_length c + synthesis_hop c \<le> int (length (af ! k))"
  shows "\<exists>d s p. channel_result c af k d s p"
proof (cases "first c")
  case True
  with ok have "0 \<le> synthesis_hop c" by auto
  from channel_result_first[OF wf k True this len] show ?thesis by blast
next
  case False
  with ok have "1 \<le> synthesis_hop c" "1 \<le> frame_length c" by auto
  from channel_result_later[OF wf k False this len] show ?thesis by blast
qed

lemma init_well_formed:
  assumes "init m1 m2 chans flen shop tol = Inr c"
  shows "well_formed c" "first c" "channels c = chans" "frame_length c = flen"
    "synthesis_hop c = shop" "tolerance c = tol"
  using assms
  by (auto simp: init_def np_empty_def bind_err_def well_formed_def rows_of_def list_all_length
      split: if_splits)

lemma well_formed_clear: "well_formed (clear c) = well_formed c"
  by (simp add: well_formed_def clear_def)

lemma convert_channel_first: "convert_channel c af k = (c', r) \<Longrightarrow> first c' = first c"
  unfolding convert_channel_def by (auto simp: Let_def split: sum.splits)

lemma convert_loop_first: "convert_loop c af ks = (c', r) \<Longrightarrow> first c' = first c"
proof (induction ks arbitrary: c)
  case Nil
  then show ?case by simp
next
  case (Cons k ks)
  obtain c1 r1 where s: "convert_channel c af k = (c1, r1)" by (cases "convert_channel c af k")
  note f1 = convert_channel_first[OF s]
  show ?case
  proof (cases r1)
    case None
    with Cons.prems s have "convert_loop c1 af ks = (c', r)" by simp
    from Cons.IH[OF this] f1 show ?thesis by simp
  next
    case (Some e)
    with Cons.prems s have "c' = c1" by simp
    with f1 show ?thesis by simp
  qed
qed

lemma copyto_cases:
  assumes "copyto dst src = Inr p"
  shows "length src = length dst \<and> p = src \<or>
         length src \<noteq> length dst \<and> length src = 1 \<and> p = replicate (length dst) (hd src)"
  using assms by (auto simp: copyto_def split: if_splits)

lemma channel_result_bounds:
  assumes wf: "well_formed c" and k: "k < nat (channels c)"
    and hs: "0 \<le> synthesis_hop c"
    and len: "frame_length c + synthesis_hop c \<le> int (length (af ! k))"
    and cr: "channel_result c af k d s p"
  shows "0 \<le> d" "nat d + nat (frame_length c) + nat (synthesis_hop c) \<le> length (af ! k)"
proof -
  have kaf: "k < length af" using cr by (simp add: channel_result_def)
  let ?L = "nat (frame_length c)" and ?H = "nat (synthesis_hop c)"
  have fl: "0 \<le> frame_length c" using wf by (simp add: well_formed_def)
  have "0 \<le> d \<and> nat d + ?L + ?H \<le> length (af ! k)"
  proof (cases "first c")
    case True
    from channel_result_unique(1)[OF channel_result_first[OF wf k kaf True hs len] cr]
    have "d = 0" by simp
    then show ?thesis using len hs fl by simp
  next
    case False
    have ss: "shift_search c af k = Inr d" using cr by (simp add: channel_result_def)
    from shift_search_later_config[OF wf k False hs ss]
    have hs1: "1 \<le> synthesis_hop c" and fl1: "1 \<le> frame_length c" by simp_all
    from channel_result_later[OF wf k kaf False hs1 fl1 len] obtain i where
      ib: "i + ?L + ?H \<le> length (af ! k)" and
      cri: "channel_result c af k (int i) (take ?L (drop i (af ! k)))
              (take ?L (drop (i + ?H) (af ! k)))" by blast
    from channel_result_unique(1)[OF cri cr] have "d = int i" by simp
    then show ?thesis using ib by simp
  qed
  then show "0 \<le> d" "nat d + ?L + ?H \<le> length (af ! k)" by simp_all
qed

subsection \<open>Evaluation and the parameter deriver\<close>

lemmas run_defs =
  convert_frame_def convert_channel_def shift_search_def cross_correlation_def bind_err_def
  row_def slice_def adjust_index_def correlate_def argmax_def copyto_def dot_def clear_def
  well_formed_def rows_of_def

lemma wsola_total:
  "0 \<le> chans \<Longrightarrow> 0 \<le> flen \<Longrightarrow>
     \<exists>t. wsola product hanning m1 m2 chans speed flen ahop shop tol = Inr t"
  by (simp add: wsola_def Let_def init_def np_empty_def bind_err_def)

lemma wsola_frame_length_1:
  assumes "wsola product hanning m1 m2 chans speed 1 None None None = Inr t"
  shows "synthesis_hop (tsm_converter t) = 0" "tolerance (tsm_converter t) = 0"
    "frame_length (tsm_converter t) = 1"
  using assms by (auto simp: wsola_def Let_def init_def bind_err_Inr_iff)

section \<open>The claims\<close>

text \<open>
  C1.  At a synthesis hop of 0 the shift search does not do what the claim says.  The
  operand \<open>analysis_frame[k, :-synthesis_hop]\<close> is meant to be the frame without its
  last \<open>synthesis_hop\<close> samples, but \<open>[:-0]\<close> is \<open>[:0]\<close>, the empty slice, and
  \<open>np.correlate\<close> rejects it: on a frame of exactly
  \<open>frame_length + tolerance + synthesis_hop\<close> samples a later call computes no score,
  chooses no shift and raises, where the claim has \<open>tolerance + 1\<close> scores.  The
  first-call path of the same loop body handles this hop and returns.
\<close>

theorem hop_0_search_raises:
  "well_formed hop0_state \<and> \<not> first hop0_state \<and>
   int (length ([[1 :: real]] ! 0)) =
     frame_length hop0_state + tolerance hop0_state + synthesis_hop hop0_state \<and>
   slice [1 :: real] None (Some (- synthesis_hop hop0_state)) = [] \<and>
   cross_correlation hop0_state [[1]] 0 = Inl ValueError \<and>
   shift_search hop0_state [[1]] 0 = Inl ValueError \<and>
   convert_frame hop0_state [[1]] = (hop0_state, Inl ValueError) \<and>
   snd (convert_frame (clear hop0_state) [[1]]) = Inr [[1]]"
  by (simp add: hop0_state_def run_defs)

text \<open>
  The claim C2 as stated fails: a frame of 5 samples, where
  \<open>frame_length + tolerance + synthesis_hop = 4\<close>, is accepted by a later call and by
  a first call, and a synthesis frame is returned.
\<close>

theorem overlong_frame_accepted:
  "int (length [1, 2, 3, 4, 5 :: real]) \<noteq>
     frame_length later_state + tolerance later_state + synthesis_hop later_state \<and>
   convert_frame later_state [[1, 2, 3, 4, 5]] =
     (later_state\<lparr>synthesis_frame := [[3, 4]], natural_progression := [[4, 5]]\<rparr>,
      Inr [[3, 4]]) \<and>
   convert_frame (clear later_state) [[1, 2, 3, 4, 5]] =
     (later_state\<lparr>synthesis_frame := [[1, 2]], natural_progression := [[2, 3]]\<rparr>,
      Inr [[1, 2]])"
  by (simp add: later_state_def run_defs)

text \<open>
  C2, amended.  \<open>convert_frame\<close> does not compare the length of the frame with
  \<open>frame_length + tolerance + synthesis_hop\<close>.  With a synthesis hop and a frame length
  of at least 1: a call whose frame has at least that many samples in every channel, so
  also a frame that is too long, returns a synthesis frame; a call whose frame has
  fewer than \<open>frame_length\<close> samples in some channel raises.
\<close>

theorem no_length_check:
  assumes wf: "well_formed c"
    and hs: "1 \<le> synthesis_hop c" and fl: "1 \<le> frame_length c" and tol: "0 \<le> tolerance c"
    and rows: "nat (channels c) \<le> length af"
  shows "((\<forall>k < nat (channels c).
             frame_length c + tolerance c + synthesis_hop c \<le> int (length (af ! k))) \<longrightarrow>
          (\<exists>c' out. convert_frame c af = (c', Inr out))) \<and>
         ((\<exists>k < nat (channels c). int (length (af ! k)) < frame_length c) \<longrightarrow>
          (\<exists>c' e. convert_frame c af = (c', Inl e)))"
proof (intro conjI impI)
  assume long: "\<forall>k < nat (channels c).
             frame_length c + tolerance c + synthesis_hop c \<le> int (length (af ! k))"
  show "\<exists>c' out. convert_frame c af = (c', Inr out)"
  proof (rule convert_frame_total)
    fix k assume k: "k < nat (channels c)"
    then have kaf: "k < length af" using rows by simp
    have "frame_length c + synthesis_hop c \<le> int (length (af ! k))"
      using long k tol by fastforce
    then show "\<exists>d s p. channel_result c af k d s p"
      using channel_result_exists[OF wf k kaf] hs fl by blast
  qed
next
  assume "\<exists>k < nat (channels c). int (length (af ! k)) < frame_length c"
  then obtain k where k: "k < nat (channels c)" and short: "int (length (af ! k)) < frame_length c"
    by blast
  show "\<exists>c' e. convert_frame c af = (c', Inl e)"
    using convert_frame_rejects[OF k] channel_result_short[OF wf k hs short] by blast
qed

theorem no_length_check_witness:
  "well_formed later_state \<and>
   snd (convert_frame later_state [[1, 2, 3, 4, 5, 6]]) = Inr [[4, 5]] \<and>
   snd (convert_frame later_state [[1]]) = Inl ValueError"
proof -
  let ?c = "later_state"
  have wf: "well_formed ?c"
    and hs: "1 \<le> synthesis_hop ?c" and fl: "1 \<le> frame_length ?c" and tol: "0 \<le> tolerance ?c"
    by (simp_all add: later_state_def well_formed_def rows_of_def)
  have r1: "nat (channels ?c) \<le> length [[1, 2, 3, 4, 5, 6 :: real]]"
    and r2: "nat (channels ?c) \<le> length [[1 :: real]]"
    by (simp_all add: later_state_def)
  from no_length_check[OF wf hs fl tol r1]
  have "\<exists>c' out. convert_frame ?c [[1, 2, 3, 4, 5, 6]] = (c', Inr out)"
    by (simp add: later_state_def)
  moreover from no_length_check[OF wf hs fl tol r2]
  have "\<exists>c' e. convert_frame ?c [[1]] = (c', Inl e)"
    by (simp add: later_state_def)
  moreover have "snd (convert_frame ?c [[1, 2, 3, 4, 5, 6]]) = Inr [[4, 5]]"
    "convert_frame ?c [[1]] = (?c, Inl ValueError)"
    by (simp_all add: later_state_def run_defs)
  ultimately show ?thesis using wf by simp
qed

text \<open>
  C3.  On a first call (a state just constructed or just cleared, whatever its buffers
  hold) with a frame of \<open>channels\<close> rows of \<open>frame_length + tolerance + synthesis_hop\<close>
  samples, the shift of every channel is 0, the call returns, and the frame returned is
  \<open>analysis_frame[k, 0:frame_length]\<close> in every channel.
\<close>

theorem first_call_no_shift:
  assumes wf: "well_formed c" and f: "first c"
    and hs: "0 \<le> synthesis_hop c" and tol: "0 \<le> tolerance c"
    and rows: "length af = nat (channels c)"
    and len: "\<And>k. k < length af \<Longrightarrow>
                int (length (af ! k)) = frame_length c + tolerance c + synthesis_hop c"
  shows "(\<forall>k < nat (channels c). shift_search c af k = Inr 0) \<and>
         (\<exists>c'. convert_frame c af =
                 (c', Inr (map (\<lambda>a. slice a (Some 0) (Some (frame_length c))) af)))"
proof -
  let ?L = "nat (frame_length c)" and ?H = "nat (synthesis_hop c)"
  have fl: "0 \<le> frame_length c" using wf by (simp add: well_formed_def)
  have shift: "\<forall>k < nat (channels c). shift_search c af k = Inr 0"
    using f by (simp add: shift_search_def)
  have cr: "channel_result c af k 0 (take ?L (af ! k)) (take ?L (drop ?H (af ! k)))"
    if "k < nat (channels c)" for k
  proof -
    have kaf: "k < length af" using that rows by simp
    have "frame_length c + synthesis_hop c \<le> int (length (af ! k))"
      using len[OF kaf] tol by simp
    from channel_result_first[OF wf that kaf f hs this] show ?thesis .
  qed
  then have "\<exists>c' out. convert_frame c af = (c', Inr out)"
    by (intro convert_frame_total) blast
  then obtain c' out where cf: "convert_frame c af = (c', Inr out)" by blast
  note n = convert_frame_Inr[OF cf]
  have "length (synthesis_frame c) = nat (channels c)"
    using wf by (simp add: well_formed_def rows_of_def)
  then have lo: "length out = length af" using n(6,7) rows by simp
  have "out ! k = slice (af ! k) (Some 0) (Some (frame_length c))" if "k < length af" for k
  proof -
    have k: "k < nat (channels c)" using that rows by simp
    from n(9)[OF k] obtain d where
      "channel_result c af k d (out ! k) (natural_progression c' ! k)" by blast
    from channel_result_unique(2)[OF cr[OF k] this]
    show ?thesis using slice_nonneg[of 0 "frame_length c" "af ! k"] fl by simp
  qed
  then have "out = map (\<lambda>a. slice a (Some 0) (Some (frame_length c))) af"
    using lo by (intro nth_equalityI) simp_all
  with cf shift show ?thesis by blast
qed

theorem first_call_no_shift_witness:
  "well_formed (clear stereo_state) \<and> first (clear stereo_state) \<and>
   shift_search (clear stereo_state) [[1, 2, 3, 4], [5, 6, 7, 8]] 0 = Inr 0 \<and>
   shift_search (clear stereo_state) [[1, 2, 3, 4], [5, 6, 7, 8]] 1 = Inr 0 \<and>
   snd (convert_frame (clear stereo_state) [[1, 2, 3, 4], [5, 6, 7, 8]]) = Inr [[1, 2], [5, 6]]"
proof -
  let ?c = "clear stereo_state" and ?af = "[[1, 2, 3, 4], [5, 6, 7, 8 :: real]]"
  have wf: "well_formed ?c" and f: "first ?c"
    and hs: "0 \<le> synthesis_hop ?c" and tol: "0 \<le> tolerance ?c"
    and rows: "length ?af = nat (channels ?c)"
    by (simp_all add: stereo_state_def clear_def well_formed_def rows_of_def)
  have len: "int (length (?af ! k)) = frame_length ?c + tolerance ?c + synthesis_hop ?c"
    if "k < length ?af" for k
    using that by (cases k) (simp_all add: stereo_state_def clear_def)
  from first_call_no_shift[OF wf f hs tol rows len]
  have "shift_search ?c ?af 0 = Inr 0" "shift_search ?c ?af 1 = Inr 0"
    "snd (convert_frame ?c ?af) = Inr (map (\<lambda>a. slice a (Some 0) (Some (frame_length ?c))) ?af)"
    by (auto simp: stereo_state_def clear_def)
  then show ?thesis using wf f
    by (simp add: stereo_state_def clear_def slice_def adjust_index_def)
qed

text \<open>
  C4.  On a later call, for a channel whose frame has exactly
  \<open>frame_length + tolerance + synthesis_hop\<close> samples: whenever the search chooses a
  shift \<open>delta\<close>, \<open>0 \<le> delta \<le> tolerance\<close> and the slice
  \<open>analysis_frame[k, delta : delta + frame_length]\<close> is \<open>frame_length\<close> samples of the
  frame; it is the row of the channel in the frame the call returns.  The search does
  choose a shift when the synthesis hop and the frame length are at least 1.
\<close>

theorem shift_bound:
  assumes wf: "well_formed c" and nf: "\<not> first c"
    and hs: "0 \<le> synthesis_hop c" and tol: "0 \<le> tolerance c"
    and k: "k < nat (channels c)" "k < length af"
    and len: "int (length (af ! k)) = frame_length c + tolerance c + synthesis_hop c"
  shows "(1 \<le> synthesis_hop c \<and> 1 \<le> frame_length c \<longrightarrow> (\<exists>d. shift_search c af k = Inr d)) \<and>
         (\<forall>d. shift_search c af k = Inr d \<longrightarrow>
            0 \<le> d \<and> d \<le> tolerance c \<and>
            nat d + nat (frame_length c) \<le> length (af ! k) \<and>
            slice (af ! k) (Some d) (Some (d + frame_length c))
              = take (nat (frame_length c)) (drop (nat d) (af ! k)) \<and>
            (\<forall>c' out. convert_frame c af = (c', Inr out) \<longrightarrow>
               out ! k = slice (af ! k) (Some d) (Some (d + frame_length c))))"
proof -
  let ?L = "nat (frame_length c)" and ?H = "nat (synthesis_hop c)"
  have len': "frame_length c + synthesis_hop c \<le> int (length (af ! k))" using len tol by simp
  have total: "\<exists>d. shift_search c af k = Inr d" if "1 \<le> synthesis_hop c" "1 \<le> frame_length c"
  proof -
    from channel_result_later[OF wf k nf that len'] obtain i where
      "channel_result c af k (int i) (take ?L (drop i (af ! k)))
              (take ?L (drop (i + ?H) (af ! k)))" by blast
    then have "shift_search c af k = Inr (int i)" unfolding channel_result_def by blast
    then show ?thesis by blast
  qed
  have bound: "0 \<le> d \<and> d \<le> tolerance c \<and> nat d + ?L \<le> length (af ! k) \<and>
      slice (af ! k) (Some d) (Some (d + frame_length c)) = take ?L (drop (nat d) (af ! k)) \<and>
      (\<forall>c' out. convert_frame c af = (c', Inr out) \<longrightarrow>
         out ! k = slice (af ! k) (Some d) (Some (d + frame_length c)))"
    if ss: "shift_search c af k = Inr d" for d
  proof -
    from shift_search_later_config[OF wf k(1) nf hs ss]
    have hs1: "1 \<le> synthesis_hop c" and fl1: "1 \<le> frame_length c" by simp_all
    from channel_result_later[OF wf k nf hs1 fl1 len'] obtain i where
      cri: "channel_result c af k (int i) (take ?L (drop i (af ! k)))
              (take ?L (drop (i + ?H) (af ! k)))" by blast
    from cri have "shift_search c af k = Inr (int i)" unfolding channel_result_def by blast
    with ss have d: "d = int i" by simp
    note b = channel_result_contract[OF wf k(1) hs tol len cri]
    have 1: "0 \<le> d" "d \<le> tolerance c" unfolding d by (rule b(1), rule b(2))
    have 2: "nat d + ?L \<le> length (af ! k)" unfolding d by (rule b(6))
    have 3: "slice (af ! k) (Some d) (Some (d + frame_length c)) = take ?L (drop (nat d) (af ! k))"
      using slice_nonneg[of d "frame_length c" "af ! k"] 1(1) fl1 by simp
    have out: "out ! k = slice (af ! k) (Some d) (Some (d + frame_length c))"
      if cf: "convert_frame c af = (c', Inr out)" for c' out
    proof -
      from convert_frame_Inr(9)[OF cf k(1)] obtain d' where
        "channel_result c af k d' (out ! k) (natural_progression c' ! k)" by blast
      from channel_result_unique(2)[OF cri this]
      have "out ! k = take ?L (drop i (af ! k))" .
      also have "\<dots> = slice (af ! k) (Some d) (Some (d + frame_length c))"
        unfolding d by (rule b(3))
      finally show ?thesis .
    qed
    have 4: "\<forall>c' out. convert_frame c af = (c', Inr out) \<longrightarrow>
         out ! k = slice (af ! k) (Some d) (Some (d + frame_length c))"
      by (intro allI impI) (rule out)
    show ?thesis by (intro conjI 1 2 3 4)
  qed
  show ?thesis
  proof (intro conjI)
    show "1 \<le> synthesis_hop c \<and> 1 \<le> frame_length c \<longrightarrow> (\<exists>d. shift_search c af k = Inr d)"
      using total by blast
    show "\<forall>d. shift_search c af k = Inr d \<longrightarrow>
            0 \<le> d \<and> d \<le> tolerance c \<and>
            nat d + nat (frame_length c) \<le> length (af ! k) \<and>
            slice (af ! k) (Some d) (Some (d + frame_length c))
              = take (nat (frame_length c)) (drop (nat d) (af ! k)) \<and>
            (\<forall>c' out. convert_frame c af = (c', Inr out) \<longrightarrow>
               out ! k = slice (af ! k) (Some d) (Some (d + frame_length c)))"
      by (intro allI impI) (rule bound)
  qed
qed

theorem shift_bound_witness:
  "well_formed later_state \<and> \<not> first later_state \<and>
   int (length ([[1, 2, 3, 4 :: real]] ! 0)) =
     frame_length later_state + tolerance later_state + synthesis_hop later_state \<and>
   shift_search later_state [[1, 2, 3, 4]] 0 = Inr 1 \<and>
   (1 :: int) \<le> tolerance later_state \<and>
   snd (convert_frame later_state [[1, 2, 3, 4]]) = Inr [[2, 3]]"
proof -
  let ?c = "later_state" and ?af = "[[1, 2, 3, 4 :: real]]"
  have wf: "well_formed ?c" and nf: "\<not> first ?c"
    and hs: "0 \<le> synthesis_hop ?c" and tol: "0 \<le> tolerance ?c"
    and k: "0 < nat (channels ?c)" "0 < length ?af"
    and len: "int (length (?af ! 0)) = frame_length ?c + tolerance ?c + synthesis_hop ?c"
    by (simp_all add: later_state_def well_formed_def rows_of_def)
  have ss: "shift_search ?c ?af 0 = Inr 1"
    by (simp add: later_state_def run_defs)
  from shift_bound[OF wf nf hs tol k len] ss have "(1 :: int) \<le> tolerance ?c" by blast
  moreover have "snd (convert_frame ?c ?af) = Inr [[2, 3]]"
    by (simp add: later_state_def run_defs)
  ultimately show ?thesis using wf nf len ss by simp
qed

text \<open>
  C5.  On a later call, whenever the scores of a channel are computed, the shift chosen
  is the least index of a maximal score.  So when the scores at the indices 2 and 5 are
  maximal and no score before the index 2 is, the shift is 2.
\<close>

theorem tie_break:
  assumes nf: "\<not> first c" and cc: "cross_correlation c af k = Inr cc"
  shows "\<exists>i. shift_search c af k = Inr (int i) \<and> i < length cc \<and> cc ! i = Max (set cc) \<and>
           (\<forall>j < length cc. cc ! j = Max (set cc) \<longrightarrow> i \<le> j) \<and>
           (5 < length cc \<and> cc ! 2 = Max (set cc) \<and> cc ! 5 = Max (set cc) \<and>
              cc ! 0 \<noteq> Max (set cc) \<and> cc ! 1 \<noteq> Max (set cc) \<longrightarrow> i = 2)"
proof -
  have "cc \<noteq> []" using cc
    by (auto simp: cross_correlation_def bind_err_Inr_iff correlate_def split: if_splits)
  then obtain i where i: "argmax cc = Inr i" using argmax_total by blast
  have ss: "shift_search c af k = Inr (int i)"
    using nf cc i by (simp add: shift_search_def bind_err_simps)
  have least: "\<forall>j < length cc. cc ! j = Max (set cc) \<longrightarrow> i \<le> j"
    using argmax_least[OF i] by blast
  have two: "i = 2" if h: "5 < length cc \<and> cc ! 2 = Max (set cc) \<and> cc ! 5 = Max (set cc) \<and>
              cc ! 0 \<noteq> Max (set cc) \<and> cc ! 1 \<noteq> Max (set cc)"
  proof -
    have "i \<le> 2" using least h by simp
    moreover have "i \<noteq> 0"
    proof
      assume "i = 0"
      then have "cc ! 0 = Max (set cc)" using argmax_Max[OF i] by simp
      with h show False by simp
    qed
    moreover have "i \<noteq> 1"
    proof
      assume "i = 1"
      then have "cc ! 1 = Max (set cc)" using argmax_Max[OF i] by simp
      with h show False by simp
    qed
    ultimately show ?thesis by arith
  qed
  from ss argmax_Inr(1)[OF i] argmax_Max[OF i] least two show ?thesis by blast
qed

theorem tie_break_witness:
  "\<not> first tie_state \<and>
   cross_correlation tie_state [[0, 1, 3, 2, 1, 3, 0]] 0 = Inr [0, 1, 3, 2, 1, 3] \<and>
   shift_search tie_state [[0, 1, 3, 2, 1, 3, 0]] 0 = Inr 2"
proof -
  let ?af = "[[0, 1, 3, 2, 1, 3, 0 :: real]]" and ?cc = "[0, 1, 3, 2, 1, 3 :: real]"
  have nf: "\<not> first tie_state" by (simp add: tie_state_def)
  have cc: "cross_correlation tie_state ?af 0 = Inr ?cc"
    by (simp add: tie_state_def run_defs)
  have m: "Max (set ?cc) = 3" by simp
  from tie_break[OF nf cc] obtain i where
    "shift_search tie_state ?af 0 = Inr (int i)"
    "5 < length ?cc \<and> ?cc ! 2 = Max (set ?cc) \<and> ?cc ! 5 = Max (set ?cc) \<and>
       ?cc ! 0 \<noteq> Max (set ?cc) \<and> ?cc ! 1 \<noteq> Max (set ?cc) \<longrightarrow> i = 2"
    by blast
  then have "shift_search tie_state ?af 0 = Inr 2" unfolding m by simp
  with nf cc show ?thesis by simp
qed

text \<open>
  The claim C6 as stated fails on a frame that is too short.  With frame length 2 and
  synthesis hop 1, a later call on a frame of 2 samples chooses the shift 0 and returns,
  and the natural progression is \<open>[2, 2]\<close>: \<open>np.copyto\<close> broadcasts the one sample of
  \<open>analysis_frame[k, 1:3]\<close>.  A first call on a frame of 1 sample chooses the shift 0,
  raises at the second copy, and the state stays in first-call mode.
\<close>

theorem short_frame_broadcast:
  "convert_frame later_state [[1, 2]] =
     (later_state\<lparr>synthesis_frame := [[1, 2]], natural_progression := [[2, 2]]\<rparr>,
      Inr [[1, 2]]) \<and>
   shift_search later_state [[1, 2]] 0 = Inr 0 \<and>
   slice [1, 2 :: real] (Some (0 + synthesis_hop later_state))
     (Some (0 + synthesis_hop later_state + frame_length later_state)) = [2] \<and>
   shift_search (clear later_state) [[7]] 0 = Inr 0 \<and>
   snd (convert_frame (clear later_state) [[7]]) = Inl ValueError \<and>
   first (fst (convert_frame (clear later_state) [[7]]))"
  by (simp add: later_state_def run_defs)

text \<open>
  C6, amended.  After a call of \<open>convert_frame\<close> that returns, first or later, the
  state is no longer in first-call mode, and in every channel, for the shift \<open>delta\<close>
  chosen there, the natural progression is
  \<open>analysis_frame[k, delta + synthesis_hop : delta + synthesis_hop + frame_length]\<close>
  whenever that slice holds \<open>frame_length\<close> samples; otherwise the slice holds one
  sample and the natural progression is \<open>frame_length\<close> copies of it.  The slice holds
  \<open>frame_length\<close> samples whenever the synthesis hop is not negative and the frame of
  the channel holds at least \<open>frame_length + synthesis_hop\<close> samples.  A call that
  raises leaves the first-call flag as it was.  On such frames a first call returns,
  and so does a later call when the synthesis hop and the frame length are at least 1.
\<close>

theorem prediction_consistency:
  assumes wf: "well_formed c"
  shows "(convert_frame c af = (c', Inr out) \<longrightarrow>
            \<not> first c' \<and>
            (\<forall>k < nat (channels c). \<exists>d.
               shift_search c af k = Inr d \<and>
               (let sl = slice (af ! k) (Some (d + synthesis_hop c))
                           (Some (d + synthesis_hop c + frame_length c))
                in (length sl = nat (frame_length c) \<longrightarrow> natural_progression c' ! k = sl) \<and>
                   (length sl \<noteq> nat (frame_length c) \<longrightarrow>
                      length sl = 1 \<and>
                      natural_progression c' ! k = replicate (nat (frame_length c)) (hd sl)) \<and>
                   (0 \<le> synthesis_hop c \<and>
                    frame_length c + synthesis_hop c \<le> int (length (af ! k)) \<longrightarrow>
                      length sl = nat (frame_length c))))) \<and>
         (convert_frame c af = (c', Inl e) \<longrightarrow> first c' = first c) \<and>
         ((\<forall>k < nat (channels c). k < length af \<and>
              frame_length c + synthesis_hop c \<le> int (length (af ! k))) \<and>
          (first c \<and> 0 \<le> synthesis_hop c \<or> 1 \<le> synthesis_hop c \<and> 1 \<le> frame_length c) \<longrightarrow>
            (\<exists>c'' out'. convert_frame c af = (c'', Inr out')))"
proof (intro conjI impI)
  assume cf: "convert_frame c af = (c', Inr out)"
  note n = convert_frame_Inr[OF cf]
  show "\<not> first c'" by (rule n(1))
  show "\<forall>k < nat (channels c). \<exists>d.
               shift_search c af k = Inr d \<and>
               (let sl = slice (af ! k) (Some (d + synthesis_hop c))
                           (Some (d + synthesis_hop c + frame_length c))
                in (length sl = nat (frame_length c) \<longrightarrow> natural_progression c' ! k = sl) \<and>
                   (length sl \<noteq> nat (frame_length c) \<longrightarrow>
                      length sl = 1 \<and>
                      natural_progression c' ! k = replicate (nat (frame_length c)) (hd sl)) \<and>
                   (0 \<le> synthesis_hop c \<and>
                    frame_length c + synthesis_hop c \<le> int (length (af ! k)) \<longrightarrow>
                      length sl = nat (frame_length c)))"
  proof (intro allI impI)
    fix k assume k: "k < nat (channels c)"
    from n(9)[OF k] obtain d where
      cr: "channel_result c af k d (out ! k) (natural_progression c' ! k)" by blast
    let ?sl = "slice (af ! k) (Some (d + synthesis_hop c))
                 (Some (d + synthesis_hop c + frame_length c))"
    note r = well_formed_rows[OF wf k]
    have ss: "shift_search c af k = Inr d" using cr by (simp add: channel_result_def)
    have "copyto (natural_progression c ! k) ?sl = Inr (natural_progression c' ! k)"
      using cr by (simp add: channel_result_def)
    from copyto_cases[OF this] r(4)
    have a: "length ?sl = nat (frame_length c) \<longrightarrow> natural_progression c' ! k = ?sl"
      and b: "length ?sl \<noteq> nat (frame_length c) \<longrightarrow>
                length ?sl = 1 \<and>
                natural_progression c' ! k = replicate (nat (frame_length c)) (hd ?sl)"
      by auto
    have c: "length ?sl = nat (frame_length c)"
      if h: "0 \<le> synthesis_hop c \<and> frame_length c + synthesis_hop c \<le> int (length (af ! k))"
    proof -
      from h have hs: "0 \<le> synthesis_hop c"
        and len: "frame_length c + synthesis_hop c \<le> int (length (af ! k))" by simp_all
      note bd = channel_result_bounds[OF wf k hs len cr]
      have "?sl = take (nat (frame_length c)) (drop (nat d + nat (synthesis_hop c)) (af ! k))"
        using slice_nonneg[of "d + synthesis_hop c" "frame_length c" "af ! k"] r(5) hs bd(1)
        by (simp add: nat_add_distrib)
      then show ?thesis using bd(2) by simp
    qed
    show "\<exists>d. shift_search c af k = Inr d \<and>
               (let sl = slice (af ! k) (Some (d + synthesis_hop c))
                           (Some (d + synthesis_hop c + frame_length c))
                in (length sl = nat (frame_length c) \<longrightarrow> natural_progression c' ! k = sl) \<and>
                   (length sl \<noteq> nat (frame_length c) \<longrightarrow>
                      length sl = 1 \<and>
                      natural_progression c' ! k = replicate (nat (frame_length c)) (hd sl)) \<and>
                   (0 \<le> synthesis_hop c \<and>
                    frame_length c + synthesis_hop c \<le> int (length (af ! k)) \<longrightarrow>
                      length sl = nat (frame_length c)))"
      unfolding Let_def
    proof (intro exI[of _ d] conjI)
      show "shift_search c af k = Inr d" by (rule ss)
      show "length ?sl = nat (frame_length c) \<longrightarrow> natural_progression c' ! k = ?sl" by (rule a)
      show "length ?sl \<noteq> nat (frame_length c) \<longrightarrow>
                length ?sl = 1 \<and>
                natural_progression c' ! k = replicate (nat (frame_length c)) (hd ?sl)" by (rule b)
      show "0 \<le> synthesis_hop c \<and> frame_length c + synthesis_hop c \<le> int (length (af ! k)) \<longrightarrow>
              length ?sl = nat (frame_length c)"
        using c by blast
    qed
  qed
next
  assume "convert_frame c af = (c', Inl e)"
  then have "convert_loop c af [0 ..< nat (channels c)] = (c', Some e)"
    unfolding convert_frame_Inl_iff .
  then show "first c' = first c" by (rule convert_loop_first)
next
  assume h: "(\<forall>k < nat (channels c). k < length af \<and>
              frame_length c + synthesis_hop c \<le> int (length (af ! k))) \<and>
          (first c \<and> 0 \<le> synthesis_hop c \<or> 1 \<le> synthesis_hop c \<and> 1 \<le> frame_length c)"
  show "\<exists>c'' out'. convert_frame c af = (c'', Inr out')"
  proof (rule convert_frame_total)
    fix k assume k: "k < nat (channels c)"
    with h have kaf: "k < length af"
      and len: "frame_length c + synthesis_hop c \<le> int (length (af ! k))" by simp_all
    from h have ok: "first c \<and> 0 \<le> synthesis_hop c \<or> 1 \<le> synthesis_hop c \<and> 1 \<le> frame_length c"
      by simp
    show "\<exists>d s p. channel_result c af k d s p"
      by (rule channel_result_exists[OF wf k kaf ok len])
  qed
qed

theorem prediction_consistency_witness:
  "well_formed later_state \<and>
   convert_frame later_state [[1, 2, 3, 4]] =
     (later_state\<lparr>synthesis_frame := [[2, 3]], natural_progression := [[3, 4]]\<rparr>,
      Inr [[2, 3]]) \<and>
   shift_search later_state [[1, 2, 3, 4]] 0 = Inr 1 \<and>
   frame_length later_state + synthesis_hop later_state \<le> int (length [1, 2, 3, 4 :: real]) \<and>
   slice [1, 2, 3, 4 :: real] (Some (1 + synthesis_hop later_state))
     (Some (1 + synthesis_hop later_state + frame_length later_state)) = [3, 4] \<and>
   first (fst (convert_frame (clear later_state) [[7]])) = first (clear later_state)"
proof -
  let ?c = "later_state" and ?af = "[[1, 2, 3, 4 :: real]]"
  let ?c' = "later_state\<lparr>synthesis_frame := [[2, 3]], natural_progression := [[3, 4]]\<rparr>"
  let ?d = "(clear later_state)\<lparr>synthesis_frame := [[7, 7]]\<rparr>"
  have wf: "well_formed ?c" and wfc: "well_formed (clear ?c)"
    by (simp_all add: later_state_def clear_def well_formed_def rows_of_def)
  have cf: "convert_frame ?c ?af = (?c', Inr [[2, 3]])"
    by (simp add: later_state_def run_defs)
  have ss: "shift_search ?c ?af 0 = Inr 1"
    by (simp add: later_state_def run_defs)
  have len: "frame_length ?c + synthesis_hop ?c \<le> int (length [1, 2, 3, 4 :: real])"
    by (simp add: later_state_def)
  have k: "0 < nat (channels ?c)" by (simp add: later_state_def)
  from prediction_consistency[OF wf, where af = ?af and c' = ?c' and out = "[[2, 3]]"] cf k
  obtain d where "shift_search ?c ?af 0 = Inr d"
    "let sl = slice (?af ! 0) (Some (d + synthesis_hop ?c))
                (Some (d + synthesis_hop ?c + frame_length ?c))
     in (length sl = nat (frame_length ?c) \<longrightarrow> natural_progression ?c' ! 0 = sl) \<and>
        (0 \<le> synthesis_hop ?c \<and> frame_length ?c + synthesis_hop ?c \<le> int (length (?af ! 0)) \<longrightarrow>
           length sl = nat (frame_length ?c))"
    unfolding Let_def by blast
  with ss have "slice [1, 2, 3, 4 :: real] (Some (1 + synthesis_hop ?c))
      (Some (1 + synthesis_hop ?c + frame_length ?c)) = [3, 4]"
    by (auto simp: later_state_def Let_def)
  moreover have raise: "convert_frame (clear ?c) [[7]] = (?d, Inl ValueError)"
    by (simp add: later_state_def run_defs)
  from prediction_consistency[OF wfc, where af = "[[7]]" and c' = ?d and e = ValueError] raise
  have "first (fst (convert_frame (clear ?c) [[7]])) = first (clear ?c)" by simp
  ultimately show ?thesis using wf cf ss len by simp
qed

text \<open>
  The claim C7 as stated fails where \<open>synthesis_hop * speed\<close> is negative and not an
  integer: \<open>int\<close> truncates toward zero.  The product \<open>3 * -0.5 = -1.5\<close> is exact in
  float64, \<open>int(-1.5) = -1\<close>, and the floor is \<open>-2\<close>.
\<close>

theorem wsola_truncates:
  "exact_product 3 (- 1 / 2) = - 3 / 2 \<and>
   map_sum id tsm_analysis_hop
     (wsola exact_product flat_window zero_mem zero_mem 1 (- 1 / 2) 8 None (Some 3) None)
     = Inr (- 1) \<and>
   \<lfloor>- 3 / 2 :: real\<rfloor> = (- 2 :: int)"
  by (simp add: wsola_def init_def np_empty_def bind_err_def py_int_def Let_def
      exact_product_def)

text \<open>
  C7, amended.  \<open>wsola\<close> resolves the synthesis hop to the argument given, else to
  \<open>floor(frame_length / 2)\<close>; the analysis hop to the argument given, whatever the
  speed, else to \<open>int(synthesis_hop * speed)\<close>, the float64 product truncated toward
  zero, which is the floor of that product when it is not negative; the tolerance to
  the argument given, else to \<open>floor(frame_length / 2)\<close>.  It hands the converter and
  the framework these values, no analysis window, and as its last two arguments the
  tolerance and \<open>tolerance + synthesis_hop\<close>.  It returns only when neither the number
  of channels nor the frame length is negative.
\<close>

theorem wsola_resolution:
  assumes w: "wsola product hanning m1 m2 chans speed flen ahop shop tol = Inr t"
  shows "tsm_synthesis_hop t = (case shop of Some h \<Rightarrow> h | None \<Rightarrow> \<lfloor>real_of_int flen / 2\<rfloor>) \<and>
         tsm_analysis_hop t =
           (case ahop of Some a \<Rightarrow> a
            | None \<Rightarrow> (let x = product (tsm_synthesis_hop t) speed
                       in if 0 \<le> x then \<lfloor>x\<rfloor> else \<lceil>x\<rceil>)) \<and>
         (ahop = None \<and> 0 \<le> product (tsm_synthesis_hop t) speed \<longrightarrow>
            tsm_analysis_hop t = \<lfloor>product (tsm_synthesis_hop t) speed\<rfloor>) \<and>
         (ahop \<noteq> None \<longrightarrow>
            (\<forall>speed' product'.
               wsola product' hanning m1 m2 chans speed' flen ahop shop tol = Inr t)) \<and>
         tsm_arg8 t = (case tol of Some x \<Rightarrow> x | None \<Rightarrow> \<lfloor>real_of_int flen / 2\<rfloor>) \<and>
         tsm_arg9 t = tsm_arg8 t + tsm_synthesis_hop t \<and>
         tsm_channels t = chans \<and> tsm_frame_length t = flen \<and>
         tsm_analysis_window t = None \<and>
         tsm_synthesis_window t = Some (hanning flen) \<and>
         channels (tsm_converter t) = chans \<and>
         frame_length (tsm_converter t) = flen \<and>
         synthesis_hop (tsm_converter t) = tsm_synthesis_hop t \<and>
         tolerance (tsm_converter t) = tsm_arg8 t \<and>
         first (tsm_converter t) \<and> well_formed (tsm_converter t) \<and>
         0 \<le> chans \<and> 0 \<le> flen"
proof -
  define sh where "sh = (case shop of None \<Rightarrow> flen div 2 | Some h \<Rightarrow> h)"
  define tl where "tl = (case tol of None \<Rightarrow> flen div 2 | Some x \<Rightarrow> x)"
  define ah where "ah = (case ahop of None \<Rightarrow> py_int (product sh speed) | Some a \<Rightarrow> a)"
  from w obtain conv where conv: "init m1 m2 chans flen sh tl = Inr conv"
    and t: "t = \<lparr>tsm_converter = conv, tsm_channels = chans, tsm_frame_length = flen,
                tsm_analysis_hop = ah, tsm_synthesis_hop = sh,
                tsm_analysis_window = None,
                tsm_synthesis_window = Some (hanning flen),
                tsm_arg8 = tl, tsm_arg9 = tl + sh\<rparr>"
    unfolding wsola_def Let_def sh_def tl_def ah_def bind_err_Inr_iff by blast
  note i = init_well_formed[OF conv]
  have half: "flen div 2 = \<lfloor>real_of_int flen / 2\<rfloor>"
    by (simp add: floor_divide_of_int_eq[of flen 2, simplified])
  have nn: "0 \<le> chans" "0 \<le> flen"
    using conv by (auto simp: init_def np_empty_def bind_err_def split: if_splits)
  have ign: "wsola product' hanning m1 m2 chans speed' flen ahop shop tol = Inr t"
    if "ahop \<noteq> None" for speed' product'
    using that w by (auto simp: wsola_def Let_def)
  show ?thesis
    unfolding t using i nn ign half
    by (auto simp: sh_def tl_def ah_def py_int_def Let_def t split: option.splits)
qed

theorem wsola_resolution_witness:
  "map_sum id (\<lambda>t. (tsm_synthesis_hop t, tsm_analysis_hop t, tsm_arg8 t, tsm_arg9 t))
     (wsola exact_product flat_window zero_mem zero_mem 1 (3 / 2) 8 None None None)
     = Inr (4, 6, 4, 8) \<and>
   map_sum id tsm_analysis_hop
     (wsola exact_product flat_window zero_mem zero_mem 1 (3 / 2) 8 (Some 5) None None) = Inr 5"
proof -
  obtain t where
    t: "wsola exact_product flat_window zero_mem zero_mem 1 (3 / 2) 8 None None None = Inr t"
    using wsola_total[of 1 8] by fastforce
  obtain u where
    u: "wsola exact_product flat_window zero_mem zero_mem 1 (3 / 2) 8 (Some 5) None None = Inr u"
    using wsola_total[of 1 8] by fastforce
  from wsola_resolution[OF t]
  have "tsm_synthesis_hop t = 4" "tsm_analysis_hop t = 6" "tsm_arg8 t = 4" "tsm_arg9 t = 8"
    by (simp_all add: Let_def exact_product_def)
  moreover from wsola_resolution[OF u] have "tsm_analysis_hop u = 5" by simp
  ultimately show ?thesis using t u by simp
qed




text \<open>
  C10.  \<open>clear\<close> writes the first-call flag and nothing else: both buffers and the four
  configuration fields of the state are what they were.
\<close>

theorem clear_only_sets_first:
  "clear c = c\<lparr>first := True\<rparr> \<and>
   synthesis_frame (clear c) = synthesis_frame c \<and>
   natural_progression (clear c) = natural_progression c \<and>
   channels (clear c) = channels c \<and>
   frame_length (clear c) = frame_length c \<and>
   synthesis_hop (clear c) = synthesis_hop c \<and>
   tolerance (clear c) = tolerance c"
  by (simp add: clear_def)

end
